theory Spec2Isabelle
  imports Complex_Main "HOL-Library.Word"
begin

text \<open>
  A model of \<open>scoring_functions.py\<close>: the scoring classes \<open>tanimoto\<close>, \<open>logP\<close>
  and \<open>activity_model\<close>, the \<open>Worker\<close> that talks to a scoring subprocess, the
  dispatchers \<open>Multiprocessing\<close> and \<open>Singleprocessing\<close>, and the factory
  \<open>get_scoring_function\<close>. Exceptions are values of a sum type; what RDKit, pexpect,
  the file system and the scheduler of the threads decide is a parameter.
\<close>

section \<open>Exceptions and values\<close>

text \<open>
  The exceptions the module can raise, as values. \<open>ArgumentError\<close> is what the RDKit
  binding raises when it is handed \<open>None\<close> for a molecule, \<open>EOF\<close> is \<open>pexpect.EOF\<close>,
  \<open>OSError\<close> stands for a failure of the file system or of spawning a process.
\<close>

datatype error =
    RuntimeError | ValueError | IndexError | TypeError | AttributeError
  | ZeroDivisionError | ArgumentError | EOF | OSError

text \<open>
  A Python float is modelled by the rational number it denotes; the rounding of binary
  floating point is not modelled. The conversion to \<open>numpy.float32\<close> is a parameter
  \<open>f32\<close> of the functions that build an array.
\<close>

type_synonym score = rat

section \<open>The scoring classes\<close>

text \<open>
  The RDKit functions the classes call. They are not code of this module, so they are the
  fields of a record that every scoring function takes as a parameter.
  \<open>GetMorganFingerprint rd mol radius\<close> is the call with \<open>useCounts=True,
  useFeatures=True\<close>; \<open>GetNonzeroElements\<close> lists the items of the dictionary of a
  fingerprint.
\<close>

record ('mol, 'fp) rdkit =
  MolFromSmiles :: "string \<Rightarrow> 'mol option"
  GetMorganFingerprint :: "'mol \<Rightarrow> nat \<Rightarrow> 'fp"
  TanimotoSimilarity :: "'fp \<Rightarrow> 'fp \<Rightarrow> score"
  MolLogP :: "'mol \<Rightarrow> score"
  GetNonzeroElements :: "'fp \<Rightarrow> (nat \<times> nat) list"

subsection \<open>tanimoto\<close>

definition structures :: "(string \<times> string) list" where
  "structures =
    [(''Celebrex'', ''C1(S(N)(=O)=O)=CC=C(N2C(C3=CC=C(C)C=C3)=CC(C(F)(F)F)=N2)C=C1''),
     (''Osimertinib'', ''CN1C=C(C2=CC=CC=C21)C3=NC(=NC=C3)NC4=C(C=C(C(=C4)NC(=O)C=C)N(C)CCN(C)C)OC''),
     (''Fexofenadine'', ''CC(C)(C1=CC=C(C=C1)C(CCCN2CCC(CC2)C(C3=CC=CC=C3)(C4=CC=CC=C4)O)O)C(=O)O''),
     (''Ranolazine'', ''CC1=C(C(=CC=C1)C)NC(=O)CN2CCN(CC2)CC(COC3=CC=CC=C3OC)O''),
     (''Perindopril'', ''CCCC(C(=O)O)NC(C)C(=O)N1C2CCCCC2CC1C(=O)O''),
     (''Amlodipine'', ''CCOC(=O)C1=C(NC(=C(C1C2=CC=CC=C2Cl)C(=O)OC)C)COCCN''),
     (''Sitagliptin'', ''C1CN2C(=NN=C2C(F)(F)F)CN1C(=O)CC(CC3=CC(=C(C=C3F)F)F)N''),
     (''Zaleplon'', ''CCN(C1=CC=CC(=C1)C2=CC=NC3=C(C=NN23)C#N)C(=O)C'')]"

text \<open>
  An instance of \<open>tanimoto\<close>: \<open>query_structure\<close> is always set by \<open>__init__\<close> (to
  \<open>None\<close> when the name is not in the catalog); \<open>query_fp\<close> is \<open>None\<close> when the
  instance has no such attribute.
\<close>

record 'fp tanimoto =
  query_structure :: "string option"
  query_fp :: "'fp option"

definition cant_find :: string where
  "cant_find = ''can'' @ [CHR 0x27] @ ''t find this structure''"

text \<open>
  \<open>tanimoto.__init__\<close>: the lines printed, and the instance or the exception.
  \<open>if self.query_structure\<close> is false for \<open>None\<close> and for the empty string.
\<close>

definition tanimoto_init ::
  "('mol, 'fp) rdkit \<Rightarrow> string \<Rightarrow> string list \<times> (error + 'fp tanimoto)" where
  "tanimoto_init rd name =
     (let qs = map_of structures name in
      if qs \<noteq> None \<and> qs \<noteq> Some [] then
        (case MolFromSmiles rd (the qs) of
           None \<Rightarrow> ([], Inl ArgumentError)
         | Some query_mol \<Rightarrow>
             ([], Inr \<lparr>query_structure = qs,
                       query_fp = Some (GetMorganFingerprint rd query_mol 2)\<rparr>))
      else ([cant_find], Inr \<lparr>query_structure = qs, query_fp = None\<rparr>))"

text \<open>
  The loop of \<open>tanimoto.__call__\<close> over \<open>mol_list\<close>, with the list \<open>resluts\<close> built
  so far. \<open>k\<close> is the class attribute \<open>self.k\<close>. Reading \<open>self.query_fp\<close> on an
  instance without it raises \<open>AttributeError\<close>; dividing by \<open>k = 0\<close> raises
  \<open>ZeroDivisionError\<close>.
\<close>

fun tanimoto_loop ::
  "('mol, 'fp) rdkit \<Rightarrow> score \<Rightarrow> 'fp tanimoto \<Rightarrow> 'mol option list \<Rightarrow> score list
    \<Rightarrow> error + score list" where
  "tanimoto_loop rd k t [] resluts = Inr resluts"
| "tanimoto_loop rd k t (Some mol # mols) resluts =
     (let fp = GetMorganFingerprint rd mol 2 in
      case query_fp t of
        None \<Rightarrow> Inl AttributeError
      | Some qfp \<Rightarrow>
          (let score = TanimotoSimilarity rd qfp fp in
           if k = 0 then Inl ZeroDivisionError
           else tanimoto_loop rd k t mols (resluts @ [min score k / k])))"
| "tanimoto_loop rd k t (None # mols) resluts =
     tanimoto_loop rd k t mols (resluts @ [0])"

definition tanimoto_call ::
  "('mol, 'fp) rdkit \<Rightarrow> score \<Rightarrow> 'fp tanimoto \<Rightarrow> string list \<Rightarrow> error + score list" where
  "tanimoto_call rd k t smiles =
     (let mol_list = map (MolFromSmiles rd) smiles in tanimoto_loop rd k t mol_list [])"

subsection \<open>logP\<close>

fun logP_loop :: "('mol, 'fp) rdkit \<Rightarrow> 'mol option list \<Rightarrow> score list \<Rightarrow> score list" where
  "logP_loop rd [] resluts = resluts"
| "logP_loop rd (Some mol # mols) resluts =
     (let logp = MolLogP rd mol;
          score = (if logp \<ge> 0 \<and> logp \<le> 3 then 1 else 0)
      in logP_loop rd mols (resluts @ [score]))"
| "logP_loop rd (None # mols) resluts = logP_loop rd mols (resluts @ [0])"

definition logP_call :: "('mol, 'fp) rdkit \<Rightarrow> string list \<Rightarrow> score list" where
  "logP_call rd smiles =
     (let mol_list = map (MolFromSmiles rd) smiles in logP_loop rd mol_list [])"

subsection \<open>activity_model\<close>

text \<open>
  \<open>fingerprints_from_mol\<close>: the counts of the fingerprint folded into 2048 cells of
  32-bit integers.
\<close>

definition fingerprints_from_mol :: "('mol, 'fp) rdkit \<Rightarrow> 'mol \<Rightarrow> 32 word list" where
  "fingerprints_from_mol rd mol =
     (let fp = GetMorganFingerprint rd mol 3;
          size = 2048;
          nfp = replicate size 0
      in fold (\<lambda>(idx, v) nfp. let nidx = idx mod size in nfp[nidx := nfp ! nidx + of_nat v])
           (GetNonzeroElements rd fp) nfp)"

text \<open>
  \<open>activity_model.__call__\<close> on one descriptor. \<open>predict_proba clf fp\<close> is the
  probability of the positive class that the unpickled classifier gives the one row
  \<open>fp\<close>, as a float.
\<close>

definition activity_model_call ::
  "('mol, 'fp) rdkit \<Rightarrow> (32 word list \<Rightarrow> score) \<Rightarrow> string \<Rightarrow> score" where
  "activity_model_call rd predict_proba smile =
     (case MolFromSmiles rd smile of
        Some mol \<Rightarrow> (let fp = fingerprints_from_mol rd mol in predict_proba fp)
      | None \<Rightarrow> 0)"

section \<open>Worker\<close>

text \<open>\<open>str.lstrip(chars)\<close> drops the leading characters that occur in \<open>chars\<close>.\<close>

definition lstrip :: "string \<Rightarrow> string \<Rightarrow> string" where
  "lstrip chars s = dropWhile (\<lambda>c. c \<in> set chars) s"

definition is_digit :: "char \<Rightarrow> bool" where
  "is_digit c \<longleftrightarrow> c \<in> set ''0123456789''"

definition digits_val :: "string \<Rightarrow> nat" where
  "digits_val ds = foldl (\<lambda>a c. 10 * a + (of_char c - 48)) 0 ds"

text \<open>
  \<open>float(s)\<close> on the strings a match of the worker's pattern can leave after
  \<open>lstrip\<close>: digits with at most one point and at least one digit give the number, the
  empty string raises \<open>ValueError\<close> (here \<open>None\<close>). Signs, exponents, blanks and the
  names of infinities, which \<open>float\<close> reads too, never occur there
  (lemma \<open>lstrip_after_plain\<close> below) and are refused by this function.
\<close>

definition py_float :: "string \<Rightarrow> score option" where
  "py_float s =
     (let ip = takeWhile is_digit s; rest = dropWhile is_digit s in
      case rest of
        [] \<Rightarrow> if ip = [] then None else Some (of_nat (digits_val ip))
      | c # fp \<Rightarrow>
          if c = CHR ''.'' \<and> list_all is_digit fp \<and> (ip \<noteq> [] \<or> fp \<noteq> [])
          then Some (of_nat (digits_val ip) + of_nat (digits_val fp) / 10 ^ length fp)
          else None)"

text \<open>
  What \<open>self.proc.expect([pattern, 'None', pexpect.TIMEOUT])\<close> gives: the index of the
  alternative that matched, with the matched text \<open>self.proc.after\<close> for index 0, or an
  exception (the list has no entry for \<open>pexpect.EOF\<close>, so the end of the subprocess's
  output raises it).
\<close>

datatype expect_result = Index0 string | Index1 | Index2 | Raise error

text \<open>
  The body of \<open>Worker.__call__\<close> up to the store: the score, or the exception that ends
  the thread.
\<close>

definition Worker_score :: "string \<Rightarrow> expect_result \<Rightarrow> error + score" where
  "Worker_score smile output =
     (case output of
        Index0 after \<Rightarrow>
          (case py_float (lstrip (smile @ '' '') after) of
             Some score \<Rightarrow> Inr score
           | None \<Rightarrow> Inl ValueError)
      | Index1 \<Rightarrow> Inr 0
      | Index2 \<Rightarrow> Inr 0
      | Raise e \<Rightarrow> Inl e)"

text \<open>
  \<open>Worker.__call__(smile, index, result_list)\<close>: the list after the call. An exception
  ends the thread without a store; it is not seen by the thread that started it.
\<close>

definition Worker_call :: "string \<Rightarrow> nat \<Rightarrow> score list \<Rightarrow> expect_result \<Rightarrow> score list" where
  "Worker_call smile index result_list output =
     (case Worker_score smile output of
        Inr score \<Rightarrow> if index < length result_list then result_list[index := score]
                     else result_list
      | Inl e \<Rightarrow> result_list)"

subsection \<open>The pattern of the worker\<close>

text \<open>
  The regular expression \<open>re.escape(smile) + " 1\.0+|[0]\.[0-9]+"\<close> at the head of a
  text. Alternation binds weakest: the first alternative is the descriptor, a blank and
  \<open>1.\<close> with one or more zeros; the second is \<open>0.\<close> with one or more digits and no
  descriptor before it. Both repetitions are greedy.
\<close>

definition match_score :: "string \<Rightarrow> string \<Rightarrow> string option" where
  "match_score smile s =
     (let p = smile @ '' 1.'' in
      if take (length p) s = p \<and> takeWhile (\<lambda>c. c = CHR ''0'') (drop (length p) s) \<noteq> []
      then Some (p @ takeWhile (\<lambda>c. c = CHR ''0'') (drop (length p) s))
      else if take 2 s = ''0.'' \<and> takeWhile is_digit (drop 2 s) \<noteq> []
      then Some (''0.'' @ takeWhile is_digit (drop 2 s))
      else None)"

definition match_None :: "string \<Rightarrow> string option" where
  "match_None s = (if take 4 s = ''None'' then Some ''None'' else None)"

text \<open>\<open>re.search\<close>: the leftmost position where the pattern matches, and the match.\<close>

fun re_search :: "(string \<Rightarrow> string option) \<Rightarrow> string \<Rightarrow> nat \<Rightarrow> (nat \<times> string) option" where
  "re_search m [] i = map_option (Pair i) (m [])"
| "re_search m (c # cs) i =
     (case m (c # cs) of Some a \<Rightarrow> Some (i, a) | None \<Rightarrow> re_search m cs (Suc i))"

text \<open>
  \<open>expect\<close> when the subprocess's whole answer \<open>buffer\<close> is read at once and nothing
  follows it: pexpect searches every pattern and takes the match that starts first, the
  earlier pattern on a tie; with no match the timeout expires.
\<close>

definition expect_buffer :: "string \<Rightarrow> string \<Rightarrow> expect_result" where
  "expect_buffer smile buffer =
     (case (re_search (match_score smile) buffer 0, re_search match_None buffer 0) of
        (Some (i, after), Some (j, _)) \<Rightarrow> if j < i then Index1 else Index0 after
      | (Some (i, after), None) \<Rightarrow> Index0 after
      | (None, Some _) \<Rightarrow> Index1
      | (None, None) \<Rightarrow> Index2)"

text \<open>
  The strings on which \<open>py_float\<close> is exactly \<open>float\<close>: digits, or digits, a
  point and at least one digit.
\<close>

definition plain_decimal :: "string \<Rightarrow> bool" where
  "plain_decimal s \<longleftrightarrow>
     (\<exists>ds fs. list_all is_digit ds \<and> list_all is_digit fs \<and>
        (s = ds \<or> (s = ds @ ''.'' @ fs \<and> fs \<noteq> [])))"

section \<open>Arrays\<close>

text \<open>
  What a scoring function returns for one argument: a float (\<open>activity_model\<close>) or a
  list of floats (\<open>tanimoto\<close>, \<open>logP\<close>).
\<close>

datatype pyobj = Num score | Seq "score list"

fun is_Num :: "pyobj \<Rightarrow> bool" where
  "is_Num (Num v) = True"
| "is_Num (Seq vs) = False"

fun num_of :: "pyobj \<Rightarrow> score" where
  "num_of (Num v) = v"
| "num_of (Seq vs) = 0"

fun seq_of :: "pyobj \<Rightarrow> score list" where
  "seq_of (Seq vs) = vs"
| "seq_of (Num v) = []"

datatype ndarray = Arr1 "score list" | Arr2 "score list list"

text \<open>
  \<open>np.array(scores, dtype=np.float32)\<close>: a list of numbers gives an array of one
  dimension, a list of lists of one length an array of two dimensions, anything else
  raises \<open>ValueError\<close>.
\<close>

definition np_array :: "(score \<Rightarrow> score) \<Rightarrow> pyobj list \<Rightarrow> error + ndarray" where
  "np_array f32 xs =
     (if list_all is_Num xs then Inr (Arr1 (map (\<lambda>x. f32 (num_of x)) xs))
      else if list_all (\<lambda>x. \<not> is_Num x \<and> length (seq_of x) = length (seq_of (hd xs))) xs
      then Inr (Arr2 (map (\<lambda>x. map f32 (seq_of x)) xs))
      else Inl ValueError)"

text \<open>\<open>len\<close> of an array is its first dimension.\<close>

fun len :: "ndarray \<Rightarrow> nat" where
  "len (Arr1 xs) = length xs"
| "len (Arr2 xss) = length xss"

section \<open>Singleprocessing\<close>

text \<open>
  The list comprehension \<open>[self.scoring_function(smile) for smile in smiles]\<close>: the
  calls in order, the first exception ends it.
\<close>

fun call_each :: "(string \<Rightarrow> error + pyobj) \<Rightarrow> string list \<Rightarrow> error + pyobj list" where
  "call_each f [] = Inr []"
| "call_each f (smile # smiles) =
     (case f smile of
        Inl e \<Rightarrow> Inl e
      | Inr v \<Rightarrow> (case call_each f smiles of Inl e \<Rightarrow> Inl e | Inr vs \<Rightarrow> Inr (v # vs)))"

definition Singleprocessing_call ::
  "(score \<Rightarrow> score) \<Rightarrow> (string \<Rightarrow> error + pyobj) \<Rightarrow> string list \<Rightarrow> error + ndarray" where
  "Singleprocessing_call f32 scoring_function smiles =
     (case call_each scoring_function smiles of
        Inl e \<Rightarrow> Inl e
      | Inr scores \<Rightarrow> np_array f32 scores)"

text \<open>
  The three classes as the \<open>scoring_function\<close> of a \<open>Singleprocessing\<close>, which hands
  each of them one descriptor. \<open>tanimoto.__call__\<close> and \<open>logP.__call__\<close> iterate
  over their argument, here over the characters of the descriptor.
\<close>

definition chars_of :: "string \<Rightarrow> string list" where
  "chars_of s = map (\<lambda>c. [c]) s"

definition tanimoto_scoring_function ::
  "('mol, 'fp) rdkit \<Rightarrow> score \<Rightarrow> 'fp tanimoto \<Rightarrow> string \<Rightarrow> error + pyobj" where
  "tanimoto_scoring_function rd k t smile =
     (case tanimoto_call rd k t (chars_of smile) of Inl e \<Rightarrow> Inl e | Inr vs \<Rightarrow> Inr (Seq vs))"

definition logP_scoring_function :: "('mol, 'fp) rdkit \<Rightarrow> string \<Rightarrow> error + pyobj" where
  "logP_scoring_function rd smile = Inr (Seq (logP_call rd (chars_of smile)))"


section \<open>Multiprocessing\<close>

text \<open>
  The state of one \<open>Multiprocessing.__call__\<close>: the list \<open>scores\<close>, the queue
  \<open>smiles_copy\<close>, and the threads that were started and have not ended, each with its
  name (the index of its worker) and its arguments \<open>(smile, idx)\<close>. No other thread of
  the process has a number for a name.
\<close>

record mp_state =
  scores :: "score list"
  smiles_copy :: "string list"
  threads :: "(nat \<times> string \<times> nat) list"

definition mp_init :: "string list \<Rightarrow> mp_state" where
  "mp_init smiles =
     \<lparr>scores = replicate (length smiles) 0, smiles_copy = smiles, threads = []\<rparr>"

text \<open>
  What the run does not decide is given from outside. \<open>respond n idx smile\<close> is what
  \<open>expect\<close> gives the thread of worker \<open>n\<close> that was handed \<open>smile\<close> for slot
  \<open>idx\<close>. A schedule is a list of events: \<open>Poll is_alive\<close> is one pass of the
  \<open>while\<close> loop, with \<open>is_alive n\<close> what \<open>Worker.is_alive\<close> of worker \<open>n\<close>
  answers in \<open>alive_workers\<close>; \<open>Finish n\<close> is the end of the thread named \<open>n\<close>.
  A pass of the loop is one event: a thread that ends during a pass after
  \<open>threading.enumerate()\<close> is seen by the next pass, as one that ends after the pass.
\<close>

type_synonym respond = "nat \<Rightarrow> nat \<Rightarrow> string \<Rightarrow> expect_result"

datatype event = Poll "nat \<Rightarrow> bool" | Finish nat

definition alive_workers :: "nat \<Rightarrow> (nat \<Rightarrow> bool) \<Rightarrow> nat list" where
  "alive_workers W is_alive = filter is_alive [0..<W]"

text \<open>
  The body of \<open>for n in free_threads\<close>: \<open>pop\<close> takes the last descriptor of the
  queue, \<open>idx\<close> is the length of what is left.
\<close>

definition start_thread :: "nat \<Rightarrow> mp_state \<Rightarrow> mp_state" where
  "start_thread n st =
     (if smiles_copy st \<noteq> [] then
        (let smile = last (smiles_copy st);
             rest = butlast (smiles_copy st);
             idx = length rest
         in st\<lparr>smiles_copy := rest, threads := threads st @ [(n, smile, idx)]\<rparr>)
      else st)"

text \<open>One pass of the \<open>while\<close> loop, for a pool of \<open>W\<close> workers.\<close>

definition iteration :: "nat \<Rightarrow> (nat \<Rightarrow> bool) \<Rightarrow> mp_state \<Rightarrow> error + mp_state" where
  "iteration W is_alive st =
     (let alive_procs = alive_workers W is_alive in
      if alive_procs = [] then Inl RuntimeError
      else
        (let used_threads = map fst (threads st);
             free_threads = filter (\<lambda>i. i \<notin> set used_threads) alive_procs
         in Inr (fold start_thread free_threads st)))"

text \<open>The thread named \<open>n\<close> runs \<open>Worker.__call__\<close> to its end.\<close>

definition finish :: "respond \<Rightarrow> nat \<Rightarrow> mp_state \<Rightarrow> mp_state" where
  "finish r n st =
     (case find (\<lambda>t. fst t = n) (threads st) of
        None \<Rightarrow> st
      | Some (m, smile, idx) \<Rightarrow>
          st\<lparr>scores := Worker_call smile idx (scores st) (r n idx smile),
             threads := filter (\<lambda>t. fst t \<noteq> n) (threads st)\<rparr>)"

text \<open>
  One event. With an empty queue the main thread has left the loop and waits in
  \<open>join\<close>: it polls no more.
\<close>

fun step :: "respond \<Rightarrow> nat \<Rightarrow> event \<Rightarrow> mp_state \<Rightarrow> error + mp_state" where
  "step r W (Poll is_alive) st =
     (if smiles_copy st = [] then Inr st else iteration W is_alive st)"
| "step r W (Finish n) st = Inr (finish r n st)"

text \<open>
  The call returns once the queue is empty and every thread has ended.
  \<open>mp_run\<close> gives \<open>None\<close> when the schedule ends before that: the call has not
  returned.
\<close>

definition returned :: "mp_state \<Rightarrow> bool" where
  "returned st \<longleftrightarrow> smiles_copy st = [] \<and> threads st = []"

fun mp_run :: "respond \<Rightarrow> nat \<Rightarrow> event list \<Rightarrow> mp_state \<Rightarrow> (error + mp_state) option" where
  "mp_run r W [] st = (if returned st then Some (Inr st) else None)"
| "mp_run r W (ev # evs) st =
     (if returned st then Some (Inr st)
      else (case step r W ev st of
              Inl e \<Rightarrow> Some (Inl e)
            | Inr st' \<Rightarrow> mp_run r W evs st'))"

definition Multiprocessing_call ::
  "(score \<Rightarrow> score) \<Rightarrow> respond \<Rightarrow> nat \<Rightarrow> event list \<Rightarrow> string list
    \<Rightarrow> (error + ndarray) option" where
  "Multiprocessing_call f32 r W evs smiles =
     (case mp_run r W evs (mp_init smiles) of
        None \<Rightarrow> None
      | Some (Inl e) \<Rightarrow> Some (Inl e)
      | Some (Inr st) \<Rightarrow> Some (np_array f32 (map Num (scores st))))"

text \<open>The state a prefix of a schedule leads to, or the exception it raises.\<close>

fun mp_steps :: "respond \<Rightarrow> nat \<Rightarrow> event list \<Rightarrow> mp_state \<Rightarrow> error + mp_state" where
  "mp_steps r W [] st = Inr st"
| "mp_steps r W (ev # evs) st =
     (case step r W ev st of Inl e \<Rightarrow> Inl e | Inr st' \<Rightarrow> mp_steps r W evs st')"

text \<open>
  The value slot \<open>i\<close> holds after the exchange of worker \<open>n\<close> about descriptor
  \<open>i\<close> of the batch: the score the worker read, or the initial 0 when the thread
  ended with an exception.
\<close>

definition slot_value :: "respond \<Rightarrow> string list \<Rightarrow> nat \<Rightarrow> nat \<Rightarrow> score" where
  "slot_value r smiles n i =
     (case Worker_score (smiles ! i) (r n i (smiles ! i)) of Inr v \<Rightarrow> v | Inl e \<Rightarrow> 0)"

section \<open>get_scoring_function\<close>

datatype scoring_class = class_tanimoto | class_logP | class_activity_model

text \<open>\<open>f.__name__\<close>\<close>

fun class_name :: "scoring_class \<Rightarrow> string" where
  "class_name class_tanimoto = ''tanimoto''"
| "class_name class_logP = ''logP''"
| "class_name class_activity_model = ''activity_model''"

text \<open>The class attribute \<open>kwargs\<close>; \<open>logP\<close> has none.\<close>

fun class_kwargs :: "scoring_class \<Rightarrow> string list option" where
  "class_kwargs class_tanimoto = Some [''k'', ''query_structure'']"
| "class_kwargs class_logP = None"
| "class_kwargs class_activity_model = Some [''clf_path'']"

datatype pyval = Float score | Str string

text \<open>
  What the factory changes and what it starts: the attributes of the classes, the command
  lines of the subprocesses spawned so far, and the scoring classes instantiated so far
  in this process.
\<close>

record world =
  attrs :: "scoring_class \<Rightarrow> string \<Rightarrow> pyval option"
  spawned :: "string list"
  constructed :: "scoring_class list"

text \<open>The attributes the class bodies set.\<close>

definition class_body :: "scoring_class \<Rightarrow> string \<Rightarrow> pyval option" where
  "class_body c a =
     (if c = class_tanimoto \<and> a = ''k'' then Some (Float (7 / 10))
      else if c = class_activity_model \<and> a = ''clf_path'' then Some (Str ''data/clf.pkl'')
      else None)"

definition world0 :: world where
  "world0 = \<lparr>attrs = class_body, spawned = [], constructed = []\<rparr>"

definition setattr :: "scoring_class \<Rightarrow> string \<Rightarrow> pyval \<Rightarrow> world \<Rightarrow> world" where
  "setattr c k v w = w\<lparr>attrs := (attrs w)(c := (attrs w c)(k \<mapsto> v))\<rparr>"

text \<open>
  What the surroundings decide: \<open>load_clf p\<close> is \<open>pickle.load\<close> of the file that
  \<open>open(p, "rb")\<close> gives, \<open>spawn_error cmd\<close> the exception of \<open>pexpect.spawn(cmd)\<close>,
  if it raises one.
\<close>

record 'clf env =
  load_clf :: "pyval \<Rightarrow> error + 'clf"
  spawn_error :: "string \<Rightarrow> error option"

datatype 'clf scoring_instance = logP_instance | activity_model_instance 'clf

text \<open>
  \<open>scoring_function()\<close> in \<open>Singleprocessing.__init__\<close>: the class is called with no
  argument. \<open>tanimoto.__init__\<close> has the required parameter \<open>query_structure\<close>, so
  the call raises \<open>TypeError\<close>.
\<close>

definition construct ::
  "'clf env \<Rightarrow> scoring_class \<Rightarrow> world \<Rightarrow> world \<times> (error + 'clf scoring_instance)" where
  "construct env c w =
     (case c of
        class_tanimoto \<Rightarrow> (w, Inl TypeError)
      | class_logP \<Rightarrow> (w\<lparr>constructed := constructed w @ [c]\<rparr>, Inr logP_instance)
      | class_activity_model \<Rightarrow>
          (case attrs w class_activity_model ''clf_path'' of
             None \<Rightarrow> (w, Inl AttributeError)
           | Some p \<Rightarrow>
               (case load_clf env p of
                  Inl e \<Rightarrow> (w, Inl e)
                | Inr clf \<Rightarrow>
                    (w\<lparr>constructed := constructed w @ [c]\<rparr>,
                     Inr (activity_model_instance clf)))))"

text \<open>\<open>Worker.__init__\<close>: the worker is known by the command line of its subprocess.\<close>

definition Worker_init :: "'clf env \<Rightarrow> string \<Rightarrow> world \<Rightarrow> world \<times> (error + string)" where
  "Worker_init env scoring_function w =
     (let cmd = ''./multiprocess.py '' @ scoring_function in
      case spawn_error env cmd of
        Some e \<Rightarrow> (w, Inl e)
      | None \<Rightarrow> (w\<lparr>spawned := spawned w @ [cmd]\<rparr>, Inr cmd))"

text \<open>\<open>[Worker(scoring_function=scoring_function) for _ in range(num_processes)]\<close>\<close>

fun spawn_workers ::
  "'clf env \<Rightarrow> string \<Rightarrow> nat \<Rightarrow> world \<Rightarrow> world \<times> (error + string list)" where
  "spawn_workers env scoring_function 0 w = (w, Inr [])"
| "spawn_workers env scoring_function (Suc n) w =
     (case Worker_init env scoring_function w of
        (w1, Inl e) \<Rightarrow> (w1, Inl e)
      | (w1, Inr p) \<Rightarrow>
          (case spawn_workers env scoring_function n w1 of
             (w2, Inl e) \<Rightarrow> (w2, Inl e)
           | (w2, Inr ps) \<Rightarrow> (w2, Inr (p # ps))))"

datatype 'clf dispatcher =
    Singleprocessing "'clf scoring_instance"
  | Multiprocessing int "string list"

text \<open>
  \<open>Multiprocessing.__init__\<close>: \<open>range(None)\<close> raises \<open>TypeError\<close>, a negative
  \<open>num_processes\<close> gives no worker.
\<close>

definition Multiprocessing_init ::
  "'clf env \<Rightarrow> int option \<Rightarrow> string \<Rightarrow> world \<Rightarrow> world \<times> (error + 'clf dispatcher)" where
  "Multiprocessing_init env num_processes scoring_function w =
     (case num_processes of
        None \<Rightarrow> (w, Inl TypeError)
      | Some n \<Rightarrow>
          (case spawn_workers env scoring_function (nat n) w of
             (w1, Inl e) \<Rightarrow> (w1, Inl e)
           | (w1, Inr workers) \<Rightarrow> (w1, Inr (Multiprocessing n workers))))"

definition Singleprocessing_init ::
  "'clf env \<Rightarrow> scoring_class \<Rightarrow> world \<Rightarrow> world \<times> (error + 'clf dispatcher)" where
  "Singleprocessing_init env scoring_function w =
     (case construct env scoring_function w of
        (w1, Inl e) \<Rightarrow> (w1, Inl e)
      | (w1, Inr inst) \<Rightarrow> (w1, Inr (Singleprocessing inst)))"

definition scoring_function_classes :: "scoring_class list" where
  "scoring_function_classes = [class_tanimoto, class_activity_model]"

definition scoring_functions :: "string list" where
  "scoring_functions = map class_name scoring_function_classes"

text \<open>
  The loop over \<open>kwargs.items()\<close>: the keyword arguments in the order of the call.
  Reading \<open>kwargs\<close> of a class without it raises \<open>AttributeError\<close>, at the first item
  and so before any store.
\<close>

fun apply_kwargs :: "scoring_class \<Rightarrow> (string \<times> pyval) list \<Rightarrow> world \<Rightarrow> error + world" where
  "apply_kwargs c [] w = Inr w"
| "apply_kwargs c ((k, v) # kwargs) w =
     (case class_kwargs c of
        None \<Rightarrow> Inl AttributeError
      | Some allowed \<Rightarrow>
          apply_kwargs c kwargs (if k \<in> set allowed then setattr c k v w else w))"

text \<open>
  \<open>get_scoring_function(scoring_function, num_processes, **kwargs)\<close>: the world after
  the call, and the dispatcher or the exception. The class is looked up by \<open>[0]\<close> of
  the list of the classes with that name, before the name is tested.
\<close>

definition get_scoring_function ::
  "'clf env \<Rightarrow> string \<Rightarrow> int option \<Rightarrow> (string \<times> pyval) list \<Rightarrow> world
    \<Rightarrow> world \<times> (error + 'clf dispatcher)" where
  "get_scoring_function env scoring_function num_processes kwargs w =
     (case filter (\<lambda>f. class_name f = scoring_function) scoring_function_classes of
        [] \<Rightarrow> (w, Inl IndexError)
      | scoring_function_class # _ \<Rightarrow>
          if scoring_function \<notin> set scoring_functions then (w, Inl ValueError)
          else
            (case apply_kwargs scoring_function_class kwargs w of
               Inl e \<Rightarrow> (w, Inl e)
             | Inr w1 \<Rightarrow>
                 if num_processes = Some 0
                 then Singleprocessing_init env scoring_function_class w1
                 else Multiprocessing_init env num_processes scoring_function w1))"

section \<open>Invariants of a run\<close>

text \<open>
  For a batch \<open>smiles\<close> and a pool of \<open>W\<close> workers. \<open>aligned\<close>: the queue is a prefix
  of the batch, every thread that runs has the name of a worker, and its slot is the
  place of its descriptor in the batch and lies behind the queue; no two threads share a
  name or a slot. \<open>settled\<close>: a slot that is still queued or in flight holds the initial
  0, every other slot holds what the exchange about its descriptor left there.
\<close>

definition aligned :: "nat \<Rightarrow> string list \<Rightarrow> mp_state \<Rightarrow> bool" where
  "aligned W smiles st \<longleftrightarrow>
     length (scores st) = length smiles \<and>
     smiles_copy st = take (length (smiles_copy st)) smiles \<and>
     distinct (map fst (threads st)) \<and>
     distinct (map (\<lambda>t. snd (snd t)) (threads st)) \<and>
     (\<forall>t \<in> set (threads st).
        fst t < W \<and> length (smiles_copy st) \<le> snd (snd t) \<and> snd (snd t) < length smiles \<and>
        fst (snd t) = smiles ! snd (snd t))"

definition settled :: "respond \<Rightarrow> nat \<Rightarrow> string list \<Rightarrow> mp_state \<Rightarrow> bool" where
  "settled r W smiles st \<longleftrightarrow>
     (\<forall>i<length smiles.
        if i < length (smiles_copy st) \<or> i \<in> (\<lambda>t. snd (snd t)) ` set (threads st)
        then scores st ! i = 0
        else (\<exists>n<W. scores st ! i = slot_value r smiles n i))"

section \<open>Schedules and surroundings for the examples\<close>

text \<open>The answers of \<open>Worker.is_alive\<close> when every worker runs, and when none does.\<close>

definition all_alive :: "nat \<Rightarrow> bool" where
  "all_alive n = True"

definition none_alive :: "nat \<Rightarrow> bool" where
  "none_alive n = False"

text \<open>
  A schedule on which every call returns when the pool has a worker: \<open>k\<close> rounds, each a
  pass of the loop that finds every worker alive, after which every thread ends.
\<close>

definition round_robin :: "nat \<Rightarrow> nat \<Rightarrow> event list" where
  "round_robin W k = concat (replicate k (Poll all_alive # map Finish [0..<W]))"

text \<open>
  A file system where the classifier loads and every spawn succeeds, a stand-in for RDKit
  that parses every descriptor but the empty one, and a classifier that gives every
  molecule the probability 1/2.
\<close>

definition env_example :: "unit env" where
  "env_example = \<lparr>load_clf = (\<lambda>p. Inr ()), spawn_error = (\<lambda>cmd. None)\<rparr>"

definition rdkit_example :: "(string, nat) rdkit" where
  "rdkit_example =
     \<lparr>MolFromSmiles = (\<lambda>s. if s = [] then None else Some s),
      GetMorganFingerprint = (\<lambda>mol radius. length mol),
      TanimotoSimilarity = (\<lambda>a b. 1 / 2),
      MolLogP = (\<lambda>mol. 1),
      GetNonzeroElements = (\<lambda>fp. [])\<rparr>"



text \<open>
  Subprocesses: one that answers every descriptor in the format of the protocol with a
  score of its own, one that answers with the score of \<open>oracle_example\<close>, and one that
  never answers.
\<close>

definition respond_example :: respond where
  "respond_example n idx smile =
     (if smile = ''CC'' then Index0 (smile @ '' 0.25'')
      else if smile = ''NO'' then Index0 (smile @ '' 0.5'')
      else Index0 (smile @ '' 0.75''))"



section \<open>The scoring classes on descriptors that do not parse\<close>

lemma tanimoto_loop_unset:
  "query_fp t = None \<Longrightarrow> list_ex (\<lambda>m. m \<noteq> None) mols \<Longrightarrow>
   tanimoto_loop rd k t mols resluts = Inl AttributeError"
  by (induction rd k t mols resluts rule: tanimoto_loop.induct) simp_all

lemma tanimoto_loop_Inr:
  "tanimoto_loop rd k t mols resluts = Inr rs \<Longrightarrow>
   \<exists>rs'. rs = resluts @ rs' \<and> length rs' = length mols \<and>
         (\<forall>i<length mols. mols ! i = None \<longrightarrow> rs' ! i = 0)"
proof (induction rd k t mols resluts rule: tanimoto_loop.induct)
  case (1 rd k t resluts)
  then show ?case by simp
next
  case (2 rd k t mol mols resluts)
  from "2.prems" obtain qfp where q: "query_fp t = Some qfp" and k: "k \<noteq> 0"
    by (auto split: option.splits if_splits simp: Let_def)
  define x where "x = min (TanimotoSimilarity rd qfp (GetMorganFingerprint rd mol 2)) k / k"
  from "2.prems" q k have run: "tanimoto_loop rd k t mols (resluts @ [x]) = Inr rs"
    by (simp add: Let_def x_def)
  from "2.IH" [OF refl q refl k] run obtain rs' where
    rs: "rs = (resluts @ [x]) @ rs'" and len: "length rs' = length mols"
    and z: "\<forall>i<length mols. mols ! i = None \<longrightarrow> rs' ! i = 0"
    unfolding x_def by blast
  have "\<forall>i<length (Some mol # mols). (Some mol # mols) ! i = None \<longrightarrow> (x # rs') ! i = 0"
    using z by (auto simp: nth_Cons split: nat.splits)
  with rs len show ?case by auto
next
  case (3 rd k t mols resluts)
  from "3.prems" have run: "tanimoto_loop rd k t mols (resluts @ [0]) = Inr rs" by simp
  from "3.IH" [OF run] obtain rs' where
    rs: "rs = (resluts @ [0]) @ rs'" and len: "length rs' = length mols"
    and z: "\<forall>i<length mols. mols ! i = None \<longrightarrow> rs' ! i = 0"
    by blast
  have "\<forall>i<length (None # mols). (None # mols) ! i = None \<longrightarrow> (0 # rs') ! i = 0"
    using z by (auto simp: nth_Cons split: nat.splits)
  with rs len show ?case by auto
qed

lemma tanimoto_loop_returns:
  "query_fp t \<noteq> None \<Longrightarrow> k \<noteq> 0 \<Longrightarrow> \<exists>rs. tanimoto_loop rd k t mols resluts = Inr rs"
  by (induction rd k t mols resluts rule: tanimoto_loop.induct) (auto simp: Let_def)

lemma logP_loop_eq:
  "\<exists>rs'. logP_loop rd mols resluts = resluts @ rs' \<and> length rs' = length mols \<and>
         (\<forall>i<length mols. mols ! i = None \<longrightarrow> rs' ! i = 0)"
proof (induction rd mols resluts rule: logP_loop.induct)
  case (1 rd resluts)
  then show ?case by simp
next
  case (2 rd mol mols resluts)
  define x :: score where "x = (if MolLogP rd mol \<ge> 0 \<and> MolLogP rd mol \<le> 3 then 1 else 0)"
  from "2.IH" [OF refl refl] obtain rs' where
    rs: "logP_loop rd mols (resluts @ [x]) = (resluts @ [x]) @ rs'"
    and len: "length rs' = length mols"
    and z: "\<forall>i<length mols. mols ! i = None \<longrightarrow> rs' ! i = 0"
    unfolding x_def by blast
  have "\<forall>i<length (Some mol # mols). (Some mol # mols) ! i = None \<longrightarrow> (x # rs') ! i = 0"
    using z by (auto simp: nth_Cons split: nat.splits)
  moreover have "logP_loop rd (Some mol # mols) resluts = resluts @ (x # rs')"
    using rs by (simp add: Let_def x_def)
  ultimately show ?case using len by auto
next
  case (3 rd mols resluts)
  from "3.IH" obtain rs' where
    rs: "logP_loop rd mols (resluts @ [0]) = (resluts @ [0]) @ rs'"
    and len: "length rs' = length mols"
    and z: "\<forall>i<length mols. mols ! i = None \<longrightarrow> rs' ! i = 0"
    by blast
  have "\<forall>i<length (None # mols). (None # mols) ! i = None \<longrightarrow> (0 # rs') ! i = 0"
    using z by (auto simp: nth_Cons split: nat.splits)
  moreover have "logP_loop rd (None # mols) resluts = resluts @ (0 # rs')"
    using rs by simp
  ultimately show ?case using len by auto
qed

text \<open>
  C8. A descriptor of a batch that \<open>Chem.MolFromSmiles\<close> does not parse gets exactly 0
  from each class: a list that \<open>tanimoto.__call__\<close> returns has 0 at its place (and the
  call returns whenever the query fingerprint is set and \<open>k\<close> is not 0, and always on
  the descriptor alone); the list of \<open>logP.__call__\<close> has 0 at its place;
  \<open>activity_model.__call__\<close> returns 0 for it.
\<close>

theorem unparsable_scores_zero:
  assumes i: "i < length smiles" and none: "MolFromSmiles rd (smiles ! i) = None"
  shows "(\<forall>rs. tanimoto_call rd k t smiles = Inr rs \<longrightarrow> length rs = length smiles \<and> rs ! i = 0)
       \<and> (query_fp t \<noteq> None \<and> k \<noteq> 0 \<longrightarrow> (\<exists>rs. tanimoto_call rd k t smiles = Inr rs))
       \<and> tanimoto_call rd k t [smiles ! i] = Inr [0]
       \<and> length (logP_call rd smiles) = length smiles \<and> logP_call rd smiles ! i = 0
       \<and> activity_model_call rd predict_proba (smiles ! i) = 0"
proof -
  let ?mols = "map (MolFromSmiles rd) smiles"
  have mi: "i < length ?mols" "?mols ! i = None" using i none by simp_all
  have a: "\<forall>rs. tanimoto_call rd k t smiles = Inr rs \<longrightarrow> length rs = length smiles \<and> rs ! i = 0"
  proof (intro allI impI)
    fix rs assume "tanimoto_call rd k t smiles = Inr rs"
    then have "tanimoto_loop rd k t ?mols [] = Inr rs" by (simp add: tanimoto_call_def)
    from tanimoto_loop_Inr [OF this] mi show "length rs = length smiles \<and> rs ! i = 0" by auto
  qed
  have b: "query_fp t \<noteq> None \<and> k \<noteq> 0 \<longrightarrow> (\<exists>rs. tanimoto_call rd k t smiles = Inr rs)"
    using tanimoto_loop_returns [of t k rd ?mols "[]"] by (simp add: tanimoto_call_def)
  have c: "tanimoto_call rd k t [smiles ! i] = Inr [0]"
    using none by (simp add: tanimoto_call_def)
  from logP_loop_eq [of rd ?mols "[]"] mi
  have d: "length (logP_call rd smiles) = length smiles \<and> logP_call rd smiles ! i = 0"
    by (auto simp: logP_call_def)
  have e: "activity_model_call rd predict_proba (smiles ! i) = 0"
    using none by (simp add: activity_model_call_def)
  from a b c d e show ?thesis by blast
qed

theorem unparsable_scores_zero_witness:
  "(1::nat) < length [''CCO'', '''', ''N'']
   \<and> MolFromSmiles rdkit_example ([''CCO'', '''', ''N''] ! 1) = None
   \<and> tanimoto_call rdkit_example (7 / 10) \<lparr>query_structure = Some ''CCO'', query_fp = Some 3\<rparr>
        [''CCO'', '''', ''N''] = Inr [5 / 7, 0, 5 / 7]
   \<and> logP_call rdkit_example [''CCO'', '''', ''N''] = [1, 0, 1]
   \<and> activity_model_call rdkit_example (\<lambda>fp. 1 / 4) '''' = 0"
proof -
  have h1: "(1::nat) < length [''CCO'', '''', ''N'']" by simp
  have h2: "MolFromSmiles rdkit_example ([''CCO'', '''', ''N''] ! 1) = None"
    by (simp add: rdkit_example_def)
  have t: "tanimoto_call rdkit_example (7 / 10) \<lparr>query_structure = Some ''CCO'', query_fp = Some 3\<rparr>
        [''CCO'', '''', ''N''] = Inr [5 / 7, 0, 5 / 7]"
    by (simp add: tanimoto_call_def rdkit_example_def)
  have l: "logP_call rdkit_example [''CCO'', '''', ''N''] = [1, 0, 1]"
    by (simp add: logP_call_def rdkit_example_def)
  from unparsable_scores_zero [OF h1 h2, of "7 / 10"
      "\<lparr>query_structure = Some ''CCO'', query_fp = Some 3\<rparr>" "\<lambda>fp. 1 / 4"] h1 h2 t l
  show ?thesis by simp
qed

section \<open>A tanimoto without its query structure\<close>

text \<open>
  C10. With a name outside the catalog of eight entries \<open>tanimoto.__init__\<close> raises
  nothing: it prints its message and gives an instance without \<open>query_fp\<close>. Every call
  of that instance on a batch with a descriptor that parses raises
  \<open>AttributeError\<close>.
\<close>

theorem tanimoto_unknown_query_structure:
  assumes "name \<notin> fst ` set structures"
  shows "tanimoto_init rd name = ([cant_find], Inr \<lparr>query_structure = None, query_fp = None\<rparr>)
       \<and> (\<forall>t k smiles. snd (tanimoto_init rd name) = Inr t
              \<and> list_ex (\<lambda>s. MolFromSmiles rd s \<noteq> None) smiles
            \<longrightarrow> tanimoto_call rd k t smiles = Inl AttributeError)
       \<and> length structures = 8"
proof -
  from assms have none: "map_of structures name = None"
    by (simp add: map_of_eq_None_iff)
  then have init: "tanimoto_init rd name
      = ([cant_find], Inr \<lparr>query_structure = None, query_fp = None\<rparr>)"
    by (simp add: tanimoto_init_def)
  have call: "tanimoto_call rd k t smiles = Inl AttributeError"
    if "snd (tanimoto_init rd name) = Inr t"
      and "list_ex (\<lambda>s. MolFromSmiles rd s \<noteq> None) smiles" for t k smiles
  proof -
    from that(1) init have "query_fp t = None" by auto
    moreover from that(2) have "list_ex (\<lambda>m. m \<noteq> None) (map (MolFromSmiles rd) smiles)"
      by (simp add: list_ex_iff)
    ultimately show ?thesis
      by (simp add: tanimoto_call_def tanimoto_loop_unset)
  qed
  have "length structures = 8" by (simp add: structures_def)
  with init call show ?thesis by blast
qed

theorem tanimoto_unknown_query_structure_witness:
  "''Aspirin'' \<notin> fst ` set structures
   \<and> tanimoto_init rdkit_example ''Aspirin''
       = ([cant_find], Inr \<lparr>query_structure = None, query_fp = None\<rparr>)
   \<and> tanimoto_call rdkit_example (7 / 10) \<lparr>query_structure = None, query_fp = None\<rparr>
        ['''', ''CCO''] = Inl AttributeError"
proof -
  have h: "''Aspirin'' \<notin> fst ` set structures" by (simp add: structures_def)
  have p: "list_ex (\<lambda>s. MolFromSmiles rdkit_example s \<noteq> None) ['''', ''CCO'']"
    by (simp add: rdkit_example_def)
  from tanimoto_unknown_query_structure [OF h, of rdkit_example] p h
  show ?thesis by simp
qed

section \<open>The exchange of a worker\<close>

text \<open>
  What is left of a match of the pattern after \<open>lstrip\<close> is a plain decimal or
  empty, so \<open>py_float\<close> is \<open>float\<close> there: the thread raises \<open>ValueError\<close>
  exactly when nothing is left, and has a score otherwise.
\<close>

lemma digits_dropWhile: "list_all is_digit b \<Longrightarrow> list_all is_digit (dropWhile P b)"
  by (induction b) simp_all

lemma dropWhile_plain:
  assumes "list_all is_digit a" "list_all is_digit b" "b \<noteq> []"
  shows "plain_decimal (dropWhile P (a @ ''.'' @ b))"
  using assms(1)
proof (induction a)
  case Nil
  show ?case
  proof (cases "P CHR ''.''")
    case True
    have "list_all is_digit (dropWhile P b)" by (rule digits_dropWhile [OF assms(2)])
    then have "plain_decimal (dropWhile P b)"
      unfolding plain_decimal_def by (intro exI [of _ "dropWhile P b"] exI [of _ "[]"]) simp
    with True show ?thesis by simp
  next
    case False
    have "plain_decimal (''.'' @ b)"
      unfolding plain_decimal_def using assms(2,3)
      by (intro exI [of _ "[]"] exI [of _ b]) simp
    with False show ?thesis by simp
  qed
next
  case (Cons x a)
  show ?case
  proof (cases "P x")
    case True
    with Cons show ?thesis by simp
  next
    case False
    have "plain_decimal ((x # a) @ ''.'' @ b)"
      unfolding plain_decimal_def using assms(2,3) Cons.prems
      by (intro exI [of _ "x # a"] exI [of _ b]) simp
    with False show ?thesis by simp
  qed
qed

lemma lstrip_after_plain:
  assumes "match_score smile s = Some after"
  shows "plain_decimal (lstrip (smile @ '' '') after)"
proof -
  define P where "P = (\<lambda>c. c \<in> set (smile @ '' ''))"
  define zs where "zs = takeWhile (\<lambda>c. c = CHR ''0'') (drop (length (smile @ '' 1.'')) s)"
  define ds where "ds = takeWhile is_digit (drop 2 s)"
  have zs: "list_all is_digit zs"
    by (auto simp: zs_def list_all_iff is_digit_def dest: set_takeWhileD)
  have ds: "list_all is_digit ds"
    by (auto simp: ds_def list_all_iff dest: set_takeWhileD)
  from assms consider
      (one) "after = (smile @ '' '') @ (''1'' @ ''.'' @ zs)" "zs \<noteq> []"
    | (frac) "after = ''0'' @ ''.'' @ ds" "ds \<noteq> []"
    by (auto simp: match_score_def Let_def zs_def ds_def split: if_splits)
  then show ?thesis
  proof cases
    case one
    have "dropWhile P after = dropWhile P (''1'' @ ''.'' @ zs)"
      unfolding one(1) by (rule dropWhile_append2) (simp add: P_def)
    moreover have "plain_decimal (dropWhile P (''1'' @ ''.'' @ zs))"
      by (rule dropWhile_plain [OF _ zs one(2)]) (simp add: is_digit_def)
    ultimately show ?thesis by (simp add: lstrip_def P_def)
  next
    case frac
    have "plain_decimal (dropWhile P (''0'' @ ''.'' @ ds))"
      by (rule dropWhile_plain [OF _ ds frac(2)]) (simp add: is_digit_def)
    then show ?thesis by (simp add: lstrip_def P_def frac(1))
  qed
qed

lemma py_float_plain:
  assumes "plain_decimal s"
  shows "py_float s = None \<longleftrightarrow> s = []"
proof -
  from assms obtain ds fs where d: "list_all is_digit ds" and f: "list_all is_digit fs"
    and s: "s = ds \<or> (s = ds @ ''.'' @ fs \<and> fs \<noteq> [])"
    by (auto simp: plain_decimal_def)
  have nd: "\<not> is_digit CHR ''.''" by (simp add: is_digit_def)
  from s show ?thesis
  proof
    assume s': "s = ds"
    from d have tw: "takeWhile is_digit ds = ds" and dw: "dropWhile is_digit ds = []"
      by (simp_all add: list_all_iff)
    show ?thesis
      unfolding py_float_def s' tw dw by (simp add: Let_def)
  next
    assume s': "s = ds @ ''.'' @ fs \<and> fs \<noteq> []"
    from d have tw: "takeWhile is_digit (ds @ ''.'' @ fs) = ds"
      by (simp add: takeWhile_append2 list_all_iff nd)
    from d have dw: "dropWhile is_digit (ds @ ''.'' @ fs) = ''.'' @ fs"
      by (simp add: dropWhile_append2 list_all_iff nd)
    from s' have s'': "s = ds @ ''.'' @ fs" and fs: "fs \<noteq> []" by simp_all
    show ?thesis
      unfolding py_float_def s'' tw dw using f fs by (simp add: Let_def)
  qed
qed

lemma Worker_score_matched:
  assumes "match_score smile s = Some after"
  shows "Worker_score smile (Index0 after) = Inl ValueError
           \<longleftrightarrow> lstrip (smile @ '' '') after = []"
    and "\<exists>v. Worker_score smile (Index0 after) = (if lstrip (smile @ '' '') after = []
           then Inl ValueError else Inr v)"
  using py_float_plain [OF lstrip_after_plain [OF assms]]
  by (auto simp: Worker_score_def split: option.splits)

lemma Worker_call_unscorable:
  "Worker_score smile Index1 = Inr 0"
  "Worker_score smile Index2 = Inr 0"
  "index < length result_list \<Longrightarrow>
     Worker_call smile index result_list Index1 = result_list[index := 0]"
  "index < length result_list \<Longrightarrow>
     Worker_call smile index result_list Index2 = result_list[index := 0]"
  by (simp_all add: Worker_score_def Worker_call_def)

text \<open>
  C6. The sentinel and the timeout store 0 (lemma \<open>Worker_call_unscorable\<close>), but the
  score of an answer in the format is not always the one stored, and an answer outside
  the format is not always scored 0. For the descriptor \<open>C1CCCCC1\<close> and the answer
  \<open>C1CCCCC1 1.0\<close> the pattern matches the whole answer, \<open>lstrip\<close> takes the
  characters of the descriptor off the score as well, and 0 is stored for the score 1.0.
  For the descriptor \<open>CC\<close> the answer \<open>0.5\<close>, which has no descriptor, matches the
  second alternative of the pattern and 0.5 is stored.
\<close>

theorem Worker_call_score_lost:
  "expect_buffer ''C1CCCCC1'' ''C1CCCCC1 1.0'' = Index0 ''C1CCCCC1 1.0''
   \<and> Worker_score ''C1CCCCC1'' (Index0 ''C1CCCCC1 1.0'') = Inr 0
   \<and> Worker_call ''C1CCCCC1'' 0 [9] (Index0 ''C1CCCCC1 1.0'') = [0]
   \<and> expect_buffer ''CC'' ''0.5'' = Index0 ''0.5''
   \<and> Worker_call ''CC'' 0 [9] (Index0 ''0.5'') = [1 / 2]"
  by code_simp

section \<open>The factory\<close>

lemma filter_unknown_name:
  "name \<notin> set scoring_functions \<Longrightarrow>
   filter (\<lambda>f. class_name f = name) scoring_function_classes = []"
  by (auto simp: scoring_functions_def scoring_function_classes_def)

lemma filter_tanimoto:
  "filter (\<lambda>f. class_name f = ''tanimoto'') scoring_function_classes = [class_tanimoto]"
  by (simp add: scoring_function_classes_def)

lemma filter_activity_model:
  "filter (\<lambda>f. class_name f = ''activity_model'') scoring_function_classes
     = [class_activity_model]"
  by (simp add: scoring_function_classes_def)

lemma filter_registered:
  assumes "c \<in> set scoring_function_classes"
  shows "filter (\<lambda>f. class_name f = class_name c) scoring_function_classes = [c]"
proof -
  from assms have "c = class_tanimoto \<or> c = class_activity_model"
    unfolding scoring_function_classes_def by simp
  then show ?thesis
  proof
    assume "c = class_tanimoto"
    then show ?thesis by (simp add: filter_tanimoto)
  next
    assume "c = class_activity_model"
    then show ?thesis by (simp add: filter_activity_model)
  qed
qed

lemma apply_kwargs_append:
  "apply_kwargs c (kw1 @ kw2) w =
     (case apply_kwargs c kw1 w of Inl e \<Rightarrow> Inl e | Inr w1 \<Rightarrow> apply_kwargs c kw2 w1)"
proof (induction kw1 arbitrary: w)
  case Nil
  show ?case by simp
next
  case (Cons kv kw1)
  obtain k v where kv: "kv = (k, v)" by (cases kv)
  show ?case
  proof (cases "class_kwargs c")
    case None
    then show ?thesis by (simp add: kv)
  next
    case (Some allowed)
    then show ?thesis by (simp add: kv Cons.IH)
  qed
qed

lemma apply_kwargs_skip:
  assumes "class_kwargs c = Some allowed" "k \<notin> set allowed"
  shows "apply_kwargs c (kw1 @ (k, v) # kw2) w = apply_kwargs c (kw1 @ kw2) w"
proof -
  have h: "apply_kwargs c ((k, v) # kw2) w1 = apply_kwargs c kw2 w1" for w1
    using assms by simp
  show ?thesis
    unfolding apply_kwargs_append
    by (cases "apply_kwargs c kw1 w") (simp_all only: sum.case h)
qed

lemma apply_kwargs_returns:
  "class_kwargs c = Some allowed \<Longrightarrow> \<exists>w'. apply_kwargs c kwargs w = Inr w'"
proof (induction kwargs arbitrary: w)
  case Nil
  show ?case by simp
next
  case (Cons kv kwargs)
  obtain k v where kv: "kv = (k, v)" by (cases kv)
  from Cons.IH [OF Cons.prems] show ?case by (simp add: kv Cons.prems)
qed

text \<open>
  With \<open>num_processes == 0\<close> the factory cannot build a dispatcher for \<open>tanimoto\<close>:
  \<open>Singleprocessing.__init__\<close> calls the class without the argument its
  \<open>__init__\<close> requires.
\<close>

lemma tanimoto_in_process:
  "snd (get_scoring_function env ''tanimoto'' (Some 0) kwargs w) = Inl TypeError"
proof -
  have "class_kwargs class_tanimoto = Some [''k'', ''query_structure'']" by simp
  from apply_kwargs_returns [OF this]
  obtain w' where "apply_kwargs class_tanimoto kwargs w = Inr w'" by blast
  then show ?thesis
    by (simp add: get_scoring_function_def filter_tanimoto scoring_functions_def
        scoring_function_classes_def Singleprocessing_init_def construct_def)
qed

text \<open>
  C4. A name outside the registered classes makes the factory fail before anything is
  built, but with the \<open>IndexError\<close> of the look-up, not with the \<open>ValueError\<close> of
  the test that follows it: the world is unchanged and the test is never reached.
\<close>

theorem get_scoring_function_unknown_name:
  "scoring_function \<notin> set scoring_functions \<Longrightarrow>
   get_scoring_function env scoring_function num_processes kwargs w = (w, Inl IndexError)"
  by (simp add: get_scoring_function_def filter_unknown_name)

theorem get_scoring_function_unknown_name_witness:
  "''qed'' \<notin> set scoring_functions
   \<and> get_scoring_function env_example ''qed'' (Some 2) [] world0 = (world0, Inl IndexError)"
proof -
  have h: "''qed'' \<notin> set scoring_functions"
    by (simp add: scoring_functions_def scoring_function_classes_def)
  show ?thesis
    using h get_scoring_function_unknown_name [OF h] by simp
qed

text \<open>
  C9. The registered classes are \<open>tanimoto\<close> and \<open>activity_model\<close> only. Asked for
  \<open>logP\<close> the factory raises, whatever \<open>num_processes\<close> and the overrides are, and
  changes nothing; a call that returns a dispatcher was made with one of the two
  registered names.
\<close>

theorem logP_not_registered:
  "scoring_functions = [''tanimoto'', ''activity_model'']
   \<and> get_scoring_function env ''logP'' num_processes kwargs w = (w, Inl IndexError)
   \<and> (\<forall>name d. snd (get_scoring_function env name num_processes kwargs w) = Inr d
        \<longrightarrow> name = ''tanimoto'' \<or> name = ''activity_model'')"
proof -
  have names: "scoring_functions = [''tanimoto'', ''activity_model'']"
    by (simp add: scoring_functions_def scoring_function_classes_def)
  have "''logP'' \<notin> set scoring_functions" by (simp add: names)
  then have logP: "get_scoring_function env ''logP'' num_processes kwargs w = (w, Inl IndexError)"
    by (simp add: get_scoring_function_def filter_unknown_name)
  have "name = ''tanimoto'' \<or> name = ''activity_model''"
    if "snd (get_scoring_function env name num_processes kwargs w) = Inr d" for name d
  proof (rule ccontr)
    assume "\<not> (name = ''tanimoto'' \<or> name = ''activity_model'')"
    then have "name \<notin> set scoring_functions" by (simp add: names)
    then have "get_scoring_function env name num_processes kwargs w = (w, Inl IndexError)"
      by (simp add: get_scoring_function_def filter_unknown_name)
    with that show False by simp
  qed
  with names logP show ?thesis by blast
qed

theorem logP_not_registered_witness:
  "get_scoring_function env_example ''logP'' (Some 0) [] world0 = (world0, Inl IndexError)
   \<and> snd (get_scoring_function env_example ''activity_model'' (Some 0) [] world0)
       = Inr (Singleprocessing (activity_model_instance ()))"
proof -
  have "snd (get_scoring_function env_example ''activity_model'' (Some 0) [] world0)
       = Inr (Singleprocessing (activity_model_instance ()))"
    by (simp add: get_scoring_function_def filter_activity_model scoring_functions_def
        scoring_function_classes_def Singleprocessing_init_def construct_def world0_def
        class_body_def env_example_def)
  with logP_not_registered [of env_example "Some 0" "[]" world0]
  show ?thesis by simp
qed

text \<open>
  C7, as the code has it. An override whose key is not in \<open>kwargs\<close> of the selected
  class is skipped: the call gives the same world and the same result as the call
  without that override, so it raises nothing of its own.
\<close>

theorem unrecognized_override_ignored:
  assumes "c \<in> set scoring_function_classes"
    and "class_kwargs c = Some allowed" and "k \<notin> set allowed"
  shows "get_scoring_function env (class_name c) num_processes (kw1 @ (k, v) # kw2) w
       = get_scoring_function env (class_name c) num_processes (kw1 @ kw2) w"
proof -
  have eq: "apply_kwargs c (kw1 @ (k, v) # kw2) w = apply_kwargs c (kw1 @ kw2) w"
    by (rule apply_kwargs_skip [OF assms(2,3)])
  show ?thesis
    unfolding get_scoring_function_def filter_registered [OF assms(1)] list.case eq ..
qed

theorem unrecognized_override_ignored_witness:
  "class_tanimoto \<in> set scoring_function_classes
   \<and> class_kwargs class_tanimoto = Some [''k'', ''query_structure'']
   \<and> ''foo'' \<notin> set [''k'', ''query_structure'']
   \<and> get_scoring_function env_example ''tanimoto'' (Some 2)
        [(''k'', Float (1 / 2)), (''foo'', Str ''x'')] world0
     = get_scoring_function env_example ''tanimoto'' (Some 2) [(''k'', Float (1 / 2))] world0"
proof -
  have h1: "class_tanimoto \<in> set scoring_function_classes"
    by (simp add: scoring_function_classes_def)
  have h2: "class_kwargs class_tanimoto = Some [''k'', ''query_structure'']" by simp
  have h3: "''foo'' \<notin> set [''k'', ''query_structure'']" by simp
  from unrecognized_override_ignored [OF h1 h2 h3, of env_example "Some 2"
      "[(''k'', Float (1 / 2))]" "Str ''x''" "[]" world0] h1 h3
  show ?thesis by simp
qed

text \<open>
  The factory takes the override \<open>foo\<close>, which \<open>activity_model\<close> does not know, and
  returns a dispatcher of two workers; no attribute \<open>foo\<close> is set.
\<close>

theorem unrecognized_override_accepted:
  "class_kwargs class_activity_model = Some [''clf_path'']
   \<and> ''foo'' \<notin> set [''clf_path'']
   \<and> snd (get_scoring_function env_example ''activity_model'' (Some 2)
           [(''foo'', Float 1)] world0)
       = Inr (Multiprocessing 2
               [''./multiprocess.py activity_model'', ''./multiprocess.py activity_model''])
   \<and> attrs (fst (get_scoring_function env_example ''activity_model'' (Some 2)
           [(''foo'', Float 1)] world0)) class_activity_model ''foo'' = None"
  by (simp add: get_scoring_function_def filter_activity_model scoring_functions_def
      scoring_function_classes_def Multiprocessing_init_def Worker_init_def world0_def
      class_body_def env_example_def numeral_2_eq_2 Let_def)

section \<open>A run keeps its invariants\<close>

lemma start_thread_empty: "smiles_copy st = [] \<Longrightarrow> start_thread n st = st"
  by (simp add: start_thread_def)

lemma start_thread_pop:
  "smiles_copy st \<noteq> [] \<Longrightarrow>
   start_thread n st =
     st\<lparr>smiles_copy := butlast (smiles_copy st),
        threads := threads st @ [(n, last (smiles_copy st), length (smiles_copy st) - 1)]\<rparr>"
  by (simp add: start_thread_def Let_def)

lemma start_thread_scores: "scores (start_thread n st) = scores st"
  by (simp add: start_thread_def Let_def)

lemma start_thread_names:
  "fst ` set (threads (start_thread n st)) \<subseteq> insert n (fst ` set (threads st))"
  by (auto simp: start_thread_def Let_def)

text \<open>Popping a prefix of the batch.\<close>

lemma pop_prefix:
  assumes q: "q = take (length q) smiles" and ne: "q \<noteq> []"
  shows "length q \<le> length smiles"
    and "last q = smiles ! (length q - 1)"
    and "butlast q = take (length q - 1) smiles"
proof -
  from arg_cong [OF q, of length] show kle: "length q \<le> length smiles" by simp
  have "last q = q ! (length q - 1)" using ne by (rule last_conv_nth)
  also have "\<dots> = take (length q) smiles ! (length q - 1)" using q by simp
  also have "\<dots> = smiles ! (length q - 1)" using ne by simp
  finally show "last q = smiles ! (length q - 1)" .
  have "butlast q = butlast (take (length q) smiles)" using q by simp
  also have "\<dots> = take (length q - 1) smiles" using kle by (simp add: butlast_take)
  finally show "butlast q = take (length q - 1) smiles" .
qed

lemma aligned_start_thread:
  assumes a: "aligned W smiles st" and n: "n < W" "n \<notin> fst ` set (threads st)"
  shows "aligned W smiles (start_thread n st)"
proof (cases "smiles_copy st = []")
  case True
  with a show ?thesis by (simp add: start_thread_empty)
next
  case False
  define k where "k = length (smiles_copy st)"
  from False have k: "0 < k" by (simp add: k_def)
  from a have q: "smiles_copy st = take (length (smiles_copy st)) smiles"
    by (simp add: aligned_def)
  note pp = pop_prefix [OF q False, folded k_def]
  have st': "start_thread n st =
     st\<lparr>smiles_copy := take (k - 1) smiles, threads := threads st @ [(n, smiles ! (k - 1), k - 1)]\<rparr>"
    using False pp by (simp add: start_thread_pop k_def)
  from a have old: "\<forall>t \<in> set (threads st).
        fst t < W \<and> k \<le> snd (snd t) \<and> snd (snd t) < length smiles \<and>
        fst (snd t) = smiles ! snd (snd t)"
    by (simp add: aligned_def k_def)
  then have fresh: "k - 1 \<notin> (\<lambda>t. snd (snd t)) ` set (threads st)"
    using k by fastforce
  from a have d1: "distinct (map fst (threads st))"
    and d2: "distinct (map (\<lambda>t. snd (snd t)) (threads st))"
    and ls: "length (scores st) = length smiles"
    by (simp_all add: aligned_def)
  have len: "length (take (k - 1) smiles) = k - 1" using pp(1) by simp
  have new: "\<forall>t \<in> set (threads st @ [(n, smiles ! (k - 1), k - 1)]).
        fst t < W \<and> k - 1 \<le> snd (snd t) \<and> snd (snd t) < length smiles \<and>
        fst (snd t) = smiles ! snd (snd t)"
    using old n(1) k pp(1) by auto
  show ?thesis
    unfolding st' aligned_def
    using new fresh d1 d2 ls n(2) len by simp
qed


lemma settled_start_thread:
  assumes a: "aligned W smiles st" and s: "settled r W smiles st"
  shows "settled r W smiles (start_thread n st)"
proof (cases "smiles_copy st = []")
  case True
  with s show ?thesis by (simp add: start_thread_empty)
next
  case False
  define k where "k = length (smiles_copy st)"
  from False have k: "0 < k" by (simp add: k_def)
  from a have q: "smiles_copy st = take (length (smiles_copy st)) smiles"
    by (simp add: aligned_def)
  note pp = pop_prefix [OF q False, folded k_def]
  have st': "start_thread n st =
     st\<lparr>smiles_copy := take (k - 1) smiles, threads := threads st @ [(n, smiles ! (k - 1), k - 1)]\<rparr>"
    using False pp by (simp add: start_thread_pop k_def)
  have len: "length (take (k - 1) smiles) = k - 1" using pp(1) by simp
  have same: "(i < k - 1 \<or> i \<in> (\<lambda>t. snd (snd t)) ` set (threads st @ [(n, smiles ! (k - 1), k - 1)]))
      \<longleftrightarrow> (i < k \<or> i \<in> (\<lambda>t. snd (snd t)) ` set (threads st))" for i
    using k by auto
  have sc: "scores (start_thread n st) = scores st" by (rule start_thread_scores)
  have "if i < length (smiles_copy (start_thread n st))
           \<or> i \<in> (\<lambda>t. snd (snd t)) ` set (threads (start_thread n st))
        then scores (start_thread n st) ! i = 0
        else (\<exists>m<W. scores (start_thread n st) ! i = slot_value r smiles m i)"
    if i: "i < length smiles" for i
  proof -
    from s i have old: "if i < k \<or> i \<in> (\<lambda>t. snd (snd t)) ` set (threads st)
        then scores st ! i = 0 else (\<exists>n<W. scores st ! i = slot_value r smiles n i)"
      by (simp add: settled_def k_def)
    have q': "length (smiles_copy (start_thread n st)) = k - 1"
      and t': "threads (start_thread n st) = threads st @ [(n, smiles ! (k - 1), k - 1)]"
      using len by (simp_all add: st')
    show ?thesis
      unfolding sc q' t' same using old .
  qed
  then show ?thesis by (simp add: settled_def)
qed

lemma inv_fold_start_thread:
  assumes "aligned W smiles st" "settled r W smiles st"
    and "distinct ns" "\<forall>n \<in> set ns. n < W \<and> n \<notin> fst ` set (threads st)"
  shows "aligned W smiles (fold start_thread ns st) \<and> settled r W smiles (fold start_thread ns st)"
  using assms
proof (induction ns arbitrary: st)
  case Nil
  then show ?case by simp
next
  case (Cons n ns)
  from Cons.prems have n: "n < W" "n \<notin> fst ` set (threads st)" by simp_all
  have a: "aligned W smiles (start_thread n st)"
    by (rule aligned_start_thread [OF Cons.prems(1) n])
  have s: "settled r W smiles (start_thread n st)"
    by (rule settled_start_thread [OF Cons.prems(1,2)])
  have "\<forall>m \<in> set ns. m < W \<and> m \<notin> fst ` set (threads (start_thread n st))"
    using Cons.prems(3,4) start_thread_names [of n st] by auto
  moreover have "distinct ns" using Cons.prems(3) by simp
  ultimately show ?case
    using Cons.IH [OF a s] by simp
qed

lemma inv_iteration:
  assumes "aligned W smiles st" "settled r W smiles st" "iteration W is_alive st = Inr st'"
  shows "aligned W smiles st' \<and> settled r W smiles st'"
proof -
  define free where
    "free = filter (\<lambda>i. i \<notin> set (map fst (threads st))) (alive_workers W is_alive)"
  from assms(3) have st': "st' = fold start_thread free st"
    by (simp add: iteration_def Let_def free_def split: if_splits)
  have "distinct free" by (simp add: free_def alive_workers_def)
  moreover have "\<forall>n \<in> set free. n < W \<and> n \<notin> fst ` set (threads st)"
    by (simp add: free_def alive_workers_def)
  ultimately show ?thesis
    unfolding st' by (rule inv_fold_start_thread [OF assms(1,2)])
qed


lemma Worker_call_length: "length (Worker_call smile index rl out) = length rl"
  by (simp add: Worker_call_def split: sum.splits)

lemma Worker_call_other: "j \<noteq> index \<Longrightarrow> Worker_call smile index rl out ! j = rl ! j"
  by (simp add: Worker_call_def split: sum.splits)

lemma Worker_call_slot:
  "index < length rl \<Longrightarrow>
   Worker_call smile index rl out ! index
     = (case Worker_score smile out of Inr v \<Rightarrow> v | Inl e \<Rightarrow> rl ! index)"
  by (simp add: Worker_call_def split: sum.splits)

lemma find_by_name:
  assumes d: "distinct (map fst ts)" and f: "find (\<lambda>t. fst t = n) ts = Some t"
  shows "t \<in> set ts" "fst t = n" "set (filter (\<lambda>u. fst u \<noteq> n) ts) = set ts - {t}"
proof -
  from f show t: "t \<in> set ts" and n: "fst t = n"
    by (auto simp: find_Some_iff)
  from d have inj: "inj_on fst (set ts)" by (simp add: distinct_map)
  have "u = t" if "u \<in> set ts" "fst u = n" for u
    using inj that t n by (auto dest: inj_onD)
  with n show "set (filter (\<lambda>u. fst u \<noteq> n) ts) = set ts - {t}" by auto
qed

lemma finish_None: "find (\<lambda>t. fst t = n) (threads st) = None \<Longrightarrow> finish r n st = st"
  by (simp add: finish_def)

lemma finish_Some:
  "find (\<lambda>t. fst t = n) (threads st) = Some (m, smile, idx) \<Longrightarrow>
   finish r n st =
     st\<lparr>scores := Worker_call smile idx (scores st) (r n idx smile),
        threads := filter (\<lambda>t. fst t \<noteq> n) (threads st)\<rparr>"
  by (simp add: finish_def)

lemma inv_finish:
  assumes a: "aligned W smiles st" and s: "settled r W smiles st"
  shows "aligned W smiles (finish r n st) \<and> settled r W smiles (finish r n st)"
proof (cases "find (\<lambda>t. fst t = n) (threads st)")
  case None
  with a s show ?thesis by (simp add: finish_None)
next
  case (Some t)
  obtain m smile idx where t: "t = (m, smile, idx)" by (cases t)
  define k where "k = length (smiles_copy st)"
  define ts' where "ts' = filter (\<lambda>t. fst t \<noteq> n) (threads st)"
  define sc' where "sc' = Worker_call smile idx (scores st) (r n idx smile)"
  from a have d1: "distinct (map fst (threads st))"
    and d2: "distinct (map (\<lambda>t. snd (snd t)) (threads st))"
    and ls: "length (scores st) = length smiles"
    and q: "smiles_copy st = take (length (smiles_copy st)) smiles"
    and old: "\<forall>t \<in> set (threads st).
        fst t < W \<and> k \<le> snd (snd t) \<and> snd (snd t) < length smiles \<and>
        fst (snd t) = smiles ! snd (snd t)"
    by (simp_all add: aligned_def k_def)
  from find_by_name [OF d1 Some]
  have tin: "t \<in> set (threads st)" and mn: "m = n" and set': "set ts' = set (threads st) - {t}"
    by (simp_all add: t ts'_def)
  from old tin have nW: "n < W" and kidx: "k \<le> idx" and idx: "idx < length smiles"
    and smile: "smile = smiles ! idx"
    by (auto simp: t mn)
  have fin: "finish r n st = st\<lparr>scores := sc', threads := ts'\<rparr>"
    using Some by (simp add: finish_Some t sc'_def ts'_def)
  have d1': "distinct (map fst ts')" using d1 by (simp add: ts'_def distinct_map_filter)
  have d2': "distinct (map (\<lambda>t. snd (snd t)) ts')"
    using d2 by (simp add: ts'_def distinct_map_filter)
  have al: "aligned W smiles (finish r n st)"
    unfolding fin aligned_def
    using q old d1' d2' ls set' by (simp add: sc'_def Worker_call_length k_def)
  from d2 have inj: "inj_on (\<lambda>t. snd (snd t)) (set (threads st))" by (simp add: distinct_map)
  have idxs': "(\<lambda>t. snd (snd t)) ` set ts' = (\<lambda>t. snd (snd t)) ` set (threads st) - {idx}"
  proof -
    have "(\<lambda>t. snd (snd t)) ` (set (threads st) - {t})
        = (\<lambda>t. snd (snd t)) ` set (threads st) - (\<lambda>t. snd (snd t)) ` {t}"
      using inj tin by (intro inj_on_image_set_diff [where C = "set (threads st)"]) auto
    then show ?thesis by (simp add: set' t)
  qed
  have idx_in: "idx \<in> (\<lambda>t. snd (snd t)) ` set (threads st)"
    using tin by (force simp: t)
  have "if i < length (smiles_copy (finish r n st))
           \<or> i \<in> (\<lambda>t. snd (snd t)) ` set (threads (finish r n st))
        then scores (finish r n st) ! i = 0
        else (\<exists>m<W. scores (finish r n st) ! i = slot_value r smiles m i)"
    if i: "i < length smiles" for i
  proof -
    from s i have o: "if i < k \<or> i \<in> (\<lambda>t. snd (snd t)) ` set (threads st)
        then scores st ! i = 0 else (\<exists>m<W. scores st ! i = slot_value r smiles m i)"
      by (simp add: settled_def k_def)
    show ?thesis
    proof (cases "i = idx")
      case True
      from s idx idx_in have z: "scores st ! idx = 0"
        by (auto simp: settled_def)
      have "sc' ! idx = slot_value r smiles n idx"
        using idx ls z
        by (simp add: sc'_def Worker_call_slot slot_value_def smile split: sum.splits)
      with True nW kidx show ?thesis
        by (auto simp: fin idxs' k_def [symmetric])
    next
      case False
      then have "sc' ! i = scores st ! i" by (simp add: sc'_def Worker_call_other)
      with False o show ?thesis
        by (simp add: fin idxs' k_def [symmetric])
    qed
  qed
  then have "settled r W smiles (finish r n st)" by (simp add: settled_def)
  with al show ?thesis ..
qed

lemma inv_step:
  assumes "aligned W smiles st" "settled r W smiles st" "step r W ev st = Inr st'"
  shows "aligned W smiles st' \<and> settled r W smiles st'"
proof (cases ev)
  case (Poll is_alive)
  show ?thesis
  proof (cases "smiles_copy st = []")
    case True
    with assms Poll show ?thesis by simp
  next
    case False
    with assms(3) Poll have "iteration W is_alive st = Inr st'" by simp
    then show ?thesis by (rule inv_iteration [OF assms(1,2)])
  qed
next
  case (Finish n)
  with assms(3) have "st' = finish r n st" by simp
  then show ?thesis using inv_finish [OF assms(1,2)] by simp
qed

lemma inv_init: "aligned W smiles (mp_init smiles) \<and> settled r W smiles (mp_init smiles)"
  by (simp add: aligned_def settled_def mp_init_def)


lemma inv_run:
  assumes "aligned W smiles st" "settled r W smiles st" "mp_run r W evs st = Some (Inr st')"
  shows "aligned W smiles st' \<and> settled r W smiles st' \<and> returned st'"
  using assms
proof (induction evs arbitrary: st)
  case Nil
  then show ?case by (simp split: if_splits)
next
  case (Cons ev evs)
  show ?case
  proof (cases "returned st")
    case True
    with Cons.prems show ?thesis by simp
  next
    case False
    with Cons.prems(3) obtain st1 where s1: "step r W ev st = Inr st1"
      and rest: "mp_run r W evs st1 = Some (Inr st')"
      by (auto split: sum.splits)
    from inv_step [OF Cons.prems(1,2) s1] Cons.IH [OF _ _ rest] show ?thesis by blast
  qed
qed

section \<open>Progress on a fair schedule\<close>

lemma mp_run_returned: "returned st \<Longrightarrow> mp_run r W evs st = Some (Inr st)"
  by (cases evs) simp_all

lemma finish_queue: "smiles_copy (finish r n st) = smiles_copy st"
  by (simp add: finish_def split: option.splits)

lemma finish_threads: "set (threads (finish r n st)) = {t \<in> set (threads st). fst t \<noteq> n}"
proof (cases "find (\<lambda>t. fst t = n) (threads st)")
  case None
  then show ?thesis by (auto simp: finish_None find_None_iff)
next
  case (Some t)
  obtain m smile idx where "t = (m, smile, idx)" by (cases t)
  with Some show ?thesis by (simp add: finish_Some)
qed

lemma fold_finish_queue: "smiles_copy (fold (finish r) ns st) = smiles_copy st"
  by (induction ns arbitrary: st) (simp_all add: finish_queue)

lemma fold_finish_threads:
  "set (threads (fold (finish r) ns st)) = {t \<in> set (threads st). fst t \<notin> set ns}"
  by (induction ns arbitrary: st) (auto simp: finish_threads)

lemma finish_idle: "threads st = [] \<Longrightarrow> finish r n st = st"
  by (simp add: finish_def)

lemma mp_run_finishes:
  "mp_run r W (map Finish ns @ evs) st = mp_run r W evs (fold (finish r) ns st)"
proof (induction ns arbitrary: st)
  case Nil
  show ?case by simp
next
  case (Cons n ns)
  show ?case
  proof (cases "returned st")
    case True
    then have "threads st = []" by (simp add: returned_def)
    then have "fold (finish r) (n # ns) st = st"
      by (induction ns) (simp_all add: finish_idle)
    with True show ?thesis by (simp add: mp_run_returned del: fold_simps)
  next
    case False
    then show ?thesis by (simp add: Cons.IH)
  qed
qed

lemma start_thread_queue:
  "length (smiles_copy (start_thread n st)) = length (smiles_copy st) - 1"
  by (simp add: start_thread_def Let_def)

lemma fold_start_thread_queue:
  "length (smiles_copy (fold start_thread ns st)) \<le> length (smiles_copy st)"
proof (induction ns arbitrary: st)
  case Nil
  show ?case by simp
next
  case (Cons n ns)
  have "length (smiles_copy (fold start_thread ns (start_thread n st)))
      \<le> length (smiles_copy (start_thread n st))" by (rule Cons.IH)
  then show ?case by (simp add: start_thread_queue)
qed

lemma fold_start_thread_names:
  "fst ` set (threads (fold start_thread ns st)) \<subseteq> set ns \<union> fst ` set (threads st)"
proof (induction ns arbitrary: st)
  case Nil
  show ?case by simp
next
  case (Cons n ns)
  from Cons.IH [of "start_thread n st"] start_thread_names [of n st]
  show ?case by auto
qed

lemma round_robin_returns:
  assumes W: "0 < W"
  shows "threads st = [] \<Longrightarrow> length (smiles_copy st) \<le> k \<Longrightarrow>
         \<exists>st'. mp_run r W (round_robin W k) st = Some (Inr st')"
proof (induction k arbitrary: st)
  case 0
  then have "returned st" by (simp add: returned_def)
  then show ?case by (simp add: mp_run_returned)
next
  case (Suc k)
  show ?case
  proof (cases "smiles_copy st = []")
    case True
    with Suc.prems have "returned st" by (simp add: returned_def)
    then show ?thesis by (simp add: mp_run_returned)
  next
    case False
    define st1 where "st1 = fold start_thread [0..<W] st"
    define st2 where "st2 = fold (finish r) [0..<W] st1"
    from W have alive: "alive_workers W all_alive = [0..<W]" "[0..<W] \<noteq> []"
      by (simp_all add: alive_workers_def all_alive_def)
    have it: "iteration W all_alive st = Inr st1"
      using alive Suc.prems(1) by (simp add: iteration_def st1_def)
    have nr: "\<not> returned st" using False by (simp add: returned_def)
    have rr: "round_robin W (Suc k) = Poll all_alive # (map Finish [0..<W] @ round_robin W k)"
      by (simp add: round_robin_def)
    have run: "mp_run r W (round_robin W (Suc k)) st = mp_run r W (round_robin W k) st2"
      unfolding rr using nr False it by (simp add: mp_run_finishes st2_def)
    have "fst ` set (threads st1) \<subseteq> set [0..<W]"
      using fold_start_thread_names [of "[0..<W]" st] Suc.prems(1) by (simp add: st1_def)
    then have "set (threads st2) = {}"
      unfolding st2_def fold_finish_threads by auto
    then have t2: "threads st2 = []" by simp
    have "[0..<W] = 0 # [1..<W]" using W by (simp add: upt_conv_Cons)
    then have "st1 = fold start_thread [1..<W] (start_thread 0 st)" by (simp add: st1_def)
    then have "length (smiles_copy st1) \<le> length (smiles_copy (start_thread 0 st))"
      by (simp add: fold_start_thread_queue)
    also have "\<dots> = length (smiles_copy st) - 1" by (rule start_thread_queue)
    also have "\<dots> \<le> k" using Suc.prems(2) by simp
    finally have "length (smiles_copy st2) \<le> k" by (simp add: st2_def fold_finish_queue)
    from Suc.IH [OF t2 this] run show ?thesis by simp
  qed
qed

lemma np_array_scores: "np_array f32 (map Num vs) = Inr (Arr1 (map f32 vs))"
  by (simp add: np_array_def list_all_iff comp_def)

lemma call_each_length: "call_each f smiles = Inr vs \<Longrightarrow> length vs = length smiles"
  by (induction smiles arbitrary: vs) (auto split: sum.splits)

lemma np_array_len: "np_array f32 xs = Inr arr \<Longrightarrow> len arr = length xs"
  by (auto simp: np_array_def split: if_splits)

lemma call_each_floats:
  "call_each (\<lambda>smile. Inr (Num (oracle smile))) smiles = Inr (map (\<lambda>smile. Num (oracle smile)) smiles)"
  by (induction smiles) simp_all

section \<open>The dispatchers\<close>

lemma Multiprocessing_call_Inr:
  assumes "Multiprocessing_call f32 r W evs smiles = Some (Inr arr)"
  obtains st where "mp_run r W evs (mp_init smiles) = Some (Inr st)"
    and "arr = Arr1 (map f32 (scores st))"
proof -
  from assms obtain st where run: "mp_run r W evs (mp_init smiles) = Some (Inr st)"
    and "np_array f32 (map Num (scores st)) = Inr arr"
    by (auto simp: Multiprocessing_call_def split: option.splits sum.splits)
  then have "arr = Arr1 (map f32 (scores st))" by (simp add: np_array_scores)
  with run show ?thesis by (rule that)
qed

text \<open>
  C1. An array that \<open>Multiprocessing.__call__\<close> returns has the length of the batch,
  on every schedule and whatever the subprocesses answer; with a pool of at least one
  worker the call does return on the schedule \<open>round_robin\<close>. An array that
  \<open>Singleprocessing.__call__\<close> returns has the length of the batch, for every scoring
  function; for one that gives every descriptor a float the call returns the array of
  these floats.
\<close>

theorem output_length:
  "(\<forall>arr. Multiprocessing_call f32 r W evs smiles = Some (Inr arr) \<longrightarrow> len arr = length smiles)
   \<and> (0 < W \<longrightarrow>
        (\<exists>arr. Multiprocessing_call f32 r W (round_robin W (length smiles)) smiles
                 = Some (Inr arr)))
   \<and> (\<forall>arr. Singleprocessing_call f32 scoring_function smiles = Inr arr
        \<longrightarrow> len arr = length smiles)
   \<and> Singleprocessing_call f32 (\<lambda>smile. Inr (Num (oracle smile))) smiles
        = Inr (Arr1 (map (\<lambda>smile. f32 (oracle smile)) smiles))"
proof -
  have a: "len arr = length smiles"
    if "Multiprocessing_call f32 r W evs smiles = Some (Inr arr)" for arr
  proof -
    from that obtain st where run: "mp_run r W evs (mp_init smiles) = Some (Inr st)"
      and arr: "arr = Arr1 (map f32 (scores st))"
      by (rule Multiprocessing_call_Inr)
    from inv_run [OF _ _ run] inv_init have "aligned W smiles st" by blast
    then show ?thesis by (simp add: arr aligned_def)
  qed
  have b: "\<exists>arr. Multiprocessing_call f32 r W (round_robin W (length smiles)) smiles
                 = Some (Inr arr)" if "0 < W"
  proof -
    have "threads (mp_init smiles) = []" "length (smiles_copy (mp_init smiles)) \<le> length smiles"
      by (simp_all add: mp_init_def)
    from round_robin_returns [OF that this] obtain st
      where "mp_run r W (round_robin W (length smiles)) (mp_init smiles) = Some (Inr st)"
      by blast
    then show ?thesis by (simp add: Multiprocessing_call_def np_array_scores)
  qed
  have c: "len arr = length smiles"
    if "Singleprocessing_call f32 scoring_function smiles = Inr arr" for arr
  proof -
    from that obtain vs where vs: "call_each scoring_function smiles = Inr vs"
      and "np_array f32 vs = Inr arr"
      by (auto simp: Singleprocessing_call_def split: sum.splits)
    then show ?thesis by (simp add: np_array_len call_each_length)
  qed
  have d: "Singleprocessing_call f32 (\<lambda>smile. Inr (Num (oracle smile))) smiles
        = Inr (Arr1 (map (\<lambda>smile. f32 (oracle smile)) smiles))"
    using np_array_scores [of f32 "map oracle smiles"]
    by (simp add: Singleprocessing_call_def call_each_floats comp_def)
  from a b c d show ?thesis by blast
qed

theorem output_length_witness:
  "Multiprocessing_call id respond_example 2 [Poll all_alive, Finish 1, Finish 0] [''CC'', ''NO'']
     = Some (Inr (Arr1 [1 / 4, 1 / 2]))
   \<and> len (Arr1 [1 / 4, 1 / 2]) = length [''CC'', ''NO'']
   \<and> Singleprocessing_call id (logP_scoring_function rdkit_example) [''CC'', ''NO'']
     = Inr (Arr2 [[1, 1], [1, 1]])
   \<and> len (Arr2 [[1, 1], [1, 1]]) = length [''CC'', ''NO'']"
proof -
  have m: "Multiprocessing_call id respond_example 2 [Poll all_alive, Finish 1, Finish 0]
      [''CC'', ''NO''] = Some (Inr (Arr1 [1 / 4, 1 / 2]))"
    by code_simp
  have s: "Singleprocessing_call id (logP_scoring_function rdkit_example) [''CC'', ''NO'']
     = Inr (Arr2 [[1, 1], [1, 1]])"
    by code_simp
  from output_length [of id respond_example 2 "[Poll all_alive, Finish 1, Finish 0]"
      "[''CC'', ''NO'']" "logP_scoring_function rdkit_example"] m s
  show ?thesis by simp
qed



lemma step_queue:
  "step r W ev st = Inr st' \<Longrightarrow> length (smiles_copy st') \<le> length (smiles_copy st)"
proof (cases ev)
  case (Poll is_alive)
  assume "step r W ev st = Inr st'"
  with Poll show ?thesis
    by (auto simp: iteration_def Let_def fold_start_thread_queue split: if_splits)
next
  case (Finish n)
  assume "step r W ev st = Inr st'"
  with Finish show ?thesis by (auto simp: finish_queue)
qed

lemma mp_run_append:
  "mp_steps r W pre st = Inr st' \<Longrightarrow> smiles_copy st' \<noteq> [] \<Longrightarrow>
   mp_run r W (pre @ evs) st = mp_run r W evs st'"
proof (induction pre arbitrary: st)
  case Nil
  then show ?case by simp
next
  case (Cons ev pre)
  from Cons.prems(1) obtain st1 where s1: "step r W ev st = Inr st1"
    and rest: "mp_steps r W pre st1 = Inr st'"
    by (auto split: sum.splits)
  have run: "mp_run r W (pre @ evs) st1 = mp_run r W evs st'"
    by (rule Cons.IH [OF rest Cons.prems(2)])
  have "smiles_copy st1 \<noteq> []"
  proof
    assume e: "smiles_copy st1 = []"
    have "smiles_copy st' = []" using rest e
    proof (induction pre arbitrary: st1)
      case Nil
      then show ?case by simp
    next
      case (Cons ev' pre')
      from Cons.prems(1) obtain st2 where s2: "step r W ev' st1 = Inr st2"
        and r2: "mp_steps r W pre' st2 = Inr st'"
        by (auto split: sum.splits)
      from step_queue [OF s2] Cons.prems(2) have "smiles_copy st2 = []" by simp
      with Cons.IH [OF r2] show ?case by simp
    qed
    with Cons.prems(2) show False by simp
  qed
  with step_queue [OF s1] have "smiles_copy st \<noteq> []" by auto
  then have "\<not> returned st" by (simp add: returned_def)
  with s1 run show ?case by simp
qed

text \<open>
  C3. When a pass of the loop, after any prefix of a schedule that leaves descriptors in
  the queue, finds no worker alive, the call raises \<open>RuntimeError\<close>: its result is the
  exception, not an array, whatever was stored before.
\<close>

theorem all_dead_raises:
  assumes "mp_steps r W pre (mp_init smiles) = Inr st"
    and "smiles_copy st \<noteq> []" and "alive_workers W is_alive = []"
  shows "Multiprocessing_call f32 r W (pre @ Poll is_alive # post) smiles
           = Some (Inl RuntimeError)"
proof -
  have "\<not> returned st" using assms(2) by (simp add: returned_def)
  then have "mp_run r W (Poll is_alive # post) st = Some (Inl RuntimeError)"
    using assms(2,3) by (simp add: iteration_def)
  with mp_run_append [OF assms(1,2)]
  have "mp_run r W (pre @ Poll is_alive # post) (mp_init smiles) = Some (Inl RuntimeError)"
    by simp
  then show ?thesis by (simp add: Multiprocessing_call_def)
qed

theorem all_dead_raises_witness:
  "mp_steps respond_example 1 [Poll all_alive, Finish 0] (mp_init [''CC'', ''NO''])
     = Inr \<lparr>scores = [0, 1 / 2], smiles_copy = [''CC''], threads = []\<rparr>
   \<and> smiles_copy \<lparr>scores = [0, 1 / 2], smiles_copy = [''CC''], threads = []\<rparr> \<noteq> []
   \<and> alive_workers 1 none_alive = []
   \<and> Multiprocessing_call id respond_example 1 [Poll all_alive, Finish 0, Poll none_alive]
        [''CC'', ''NO''] = Some (Inl RuntimeError)"
proof -
  have h1: "mp_steps respond_example 1 [Poll all_alive, Finish 0] (mp_init [''CC'', ''NO''])
     = Inr \<lparr>scores = [0, 1 / 2], smiles_copy = [''CC''], threads = []\<rparr>"
    by code_simp
  have h2: "smiles_copy \<lparr>scores = [0, 1 / 2], smiles_copy = [''CC''], threads = []\<rparr> \<noteq> []"
    by simp
  have h3: "alive_workers 1 none_alive = []"
    by (simp add: alive_workers_def none_alive_def)
  from all_dead_raises [OF h1 h2 h3, of id "[]"] h1 h2 h3
  show ?thesis by simp
qed




end
